theory Spec2Isabelle
  imports Main "HOL-Library.Sublist"
begin

section \<open>JavaScript strings\<close>

text \<open>
  A JavaScript string is a sequence of UTF-16 code units. A code unit is
  modelled by its numeric value, a string by the list of its code units.
  Source literals are written \<open>str ''...''\<close>.
\<close>

type_synonym code_unit = nat
type_synonym jsstring = "code_unit list"

definition str :: "string \<Rightarrow> jsstring" where
  "str s = map of_char s"

text \<open>
  The class \<open>\s\<close> of a regular expression, which is also what
  \<open>String.prototype.trim\<close> strips: WhiteSpace and LineTerminator of ECMAScript
  (TAB, LF, VT, FF, CR, SP, NBSP, U+1680, U+2000..U+200A, U+2028, U+2029,
  U+202F, U+205F, U+3000, U+FEFF).
\<close>

definition is_space :: "code_unit \<Rightarrow> bool" where
  "is_space c \<longleftrightarrow>
     (9 \<le> c \<and> c \<le> 13) \<or> c = 32 \<or> c = 160 \<or> c = 5760 \<or>
     (8192 \<le> c \<and> c \<le> 8202) \<or> c = 8232 \<or> c = 8233 \<or> c = 8239 \<or>
     c = 8287 \<or> c = 12288 \<or> c = 65279"

text \<open>The class \<open>\w\<close> (no \<open>i\<close> or \<open>u\<close> flag): \<open>[A-Za-z0-9_]\<close>.\<close>

definition is_word :: "code_unit \<Rightarrow> bool" where
  "is_word c \<longleftrightarrow>
     (48 \<le> c \<and> c \<le> 57) \<or> (65 \<le> c \<and> c \<le> 90) \<or> c = 95 \<or> (97 \<le> c \<and> c \<le> 122)"

text \<open>The class \<open>[^"]\<close>.\<close>

definition not_quote :: "code_unit \<Rightarrow> bool" where
  "not_quote c \<longleftrightarrow> c \<noteq> 34"

text \<open>\<open>s.includes(p)\<close>: \<open>p\<close> occurs in \<open>s\<close> at some position.\<close>

fun includes_str :: "jsstring \<Rightarrow> jsstring \<Rightarrow> bool" where
  "includes_str [] p = (p = [])"
| "includes_str (x # xs) p = (prefix p (x # xs) \<or> includes_str xs p)"

text \<open>
  \<open>s.indexOf(p)\<close>: the first position at which \<open>p\<close> occurs in \<open>s\<close>, and
  \<open>-1\<close> when there is none. \<open>indexOf_from i s p\<close> searches the suffix \<open>s\<close>
  that starts at position \<open>i\<close>.
\<close>

fun indexOf_from :: "nat \<Rightarrow> jsstring \<Rightarrow> jsstring \<Rightarrow> int" where
  "indexOf_from i [] p = (if p = [] then int i else - 1)"
| "indexOf_from i (x # xs) p =
     (if prefix p (x # xs) then int i else indexOf_from (Suc i) xs p)"

definition indexOf :: "jsstring \<Rightarrow> jsstring \<Rightarrow> int" where
  "indexOf s p = indexOf_from 0 s p"

text \<open>\<open>s.trim()\<close>.\<close>

definition trim :: "jsstring \<Rightarrow> jsstring" where
  "trim s = rev (dropWhile is_space (rev (dropWhile is_space s)))"

text \<open>\<open>xs.join(sep)\<close>.\<close>

fun join :: "jsstring \<Rightarrow> jsstring list \<Rightarrow> jsstring" where
  "join sep [] = []"
| "join sep [x] = x"
| "join sep (x # y # ys) = x @ sep @ join sep (y # ys)"

text \<open>
  \<open>s.split("\n")\<close>: the pieces of \<open>s\<close> between line feeds. The result is
  never empty: a string without a line feed is its only piece.
\<close>

fun split_nl :: "jsstring \<Rightarrow> jsstring list" where
  "split_nl [] = [[]]"
| "split_nl (c # cs) =
     (if c = 10 then [] # split_nl cs
      else (case split_nl cs of [] \<Rightarrow> [[c]] | l # ls \<Rightarrow> (c # l) # ls))"


section \<open>Regular expressions\<close>

text \<open>
  The fragment of ECMAScript regular expressions that \<open>signals.ts\<close> uses:
  literal text, a character class, concatenation, the greedy quantifiers
  \<open>*\<close> and \<open>+\<close>, and a numbered capture group (a non-capturing group
  \<open>(?:r)\<close> is \<open>r\<close> itself).
\<close>

datatype regex =
    Lit jsstring
  | Cls "code_unit \<Rightarrow> bool"
  | Seq regex regex
  | Star regex
  | Grp nat regex

definition Plus :: "regex \<Rightarrow> regex" where
  "Plus r = Seq r (Star r)"

type_synonym captures = "nat \<rightharpoonup> jsstring"

text \<open>
  The backtracking matcher. \<open>rx_match r (s, c)\<close> lists, in the order in which
  the backtracking search of ECMAScript tries them, the ways in which \<open>r\<close>
  matches a prefix of \<open>s\<close>: each is the rest of the input after the match
  and the captures so far. A greedy \<open>*\<close> tries one more iteration before it
  tries none, and rejects an iteration that consumes nothing.
\<close>

function rx_match :: "regex \<Rightarrow> jsstring \<times> captures \<Rightarrow> (jsstring \<times> captures) list" where
  "rx_match (Lit l) (s, c) = (if prefix l s then [(drop (length l) s, c)] else [])"
| "rx_match (Cls p) (s, c) = (case s of [] \<Rightarrow> [] | x # xs \<Rightarrow> if p x then [(xs, c)] else [])"
| "rx_match (Seq a b) (s, c) = concat (map (rx_match b) (rx_match a (s, c)))"
| "rx_match (Star a) (s, c) =
     concat (map (\<lambda>(s', c'). if length s' < length s then rx_match (Star a) (s', c') else [])
                 (rx_match a (s, c))) @ [(s, c)]"
| "rx_match (Grp n a) (s, c) =
     map (\<lambda>(s', c'). (s', c'(n \<mapsto> take (length s - length s') s))) (rx_match a (s, c))"
  by pat_completeness auto
termination
  by (relation "measure size <*lex*> measure (\<lambda>(s, c). length s)") auto

text \<open>
  The equation of \<open>*\<close> mentions \<open>*\<close> again for every rest of the input; the
  simplifier uses it only where a proof asks for it.
\<close>

declare rx_match.simps(4) [simp del]

text \<open>
  The result of \<open>RegExp.prototype.exec\<close>: the position of the match, the
  matched text (\<open>m[0]\<close>) and the captures (\<open>m[1]\<close>, \<open>m[2]\<close>, ...).
\<close>

record match_result =
  index :: nat
  matched :: jsstring
  groups :: captures

text \<open>
  \<open>search r i s\<close> looks for the leftmost match of \<open>r\<close> in the suffix \<open>s\<close>
  that starts at position \<open>i\<close> of the input, and takes the first way of
  matching there.
\<close>

fun search :: "regex \<Rightarrow> nat \<Rightarrow> jsstring \<Rightarrow> match_result option" where
  "search r i s =
     (case rx_match r (s, Map.empty) of
        (s', c) # _ \<Rightarrow> Some \<lparr>index = i, matched = take (length s - length s') s, groups = c\<rparr>
      | [] \<Rightarrow> (case s of [] \<Rightarrow> None | _ # t \<Rightarrow> search r (Suc i) t))"

definition exec :: "regex \<Rightarrow> jsstring \<Rightarrow> match_result option" where
  "exec r s = search r 0 s"

definition test :: "regex \<Rightarrow> jsstring \<Rightarrow> bool" where
  "test r s \<longleftrightarrow> exec r s \<noteq> None"

text \<open>\<open>m[n]\<close> of a match; a group that did not take part reads as the empty string.\<close>

definition capture :: "match_result \<Rightarrow> nat \<Rightarrow> jsstring" where
  "capture m n = (case groups m n of Some g \<Rightarrow> g | None \<Rightarrow> [])"


section \<open>The signal parser (\<open>src/agents/signals.ts\<close>)\<close>

record tagged =
  type :: jsstring
  attrs :: "jsstring \<rightharpoonup> jsstring"

record Signal = tagged +
  body :: jsstring

text \<open>\<open>/<!--\s*SIGNAL:(\w+)((?:\s+\w+="[^"]*")*)\s*-->/\<close>\<close>

definition SIGNAL_OPEN :: regex where
  "SIGNAL_OPEN =
     Seq (Lit (str ''<!--''))
    (Seq (Star (Cls is_space))
    (Seq (Lit (str ''SIGNAL:''))
    (Seq (Grp 1 (Plus (Cls is_word)))
    (Seq (Grp 2 (Star
            (Seq (Plus (Cls is_space))
            (Seq (Plus (Cls is_word))
            (Seq (Lit (str ''=\"''))
            (Seq (Star (Cls not_quote))
                 (Lit (str ''\"''))))))))
    (Seq (Star (Cls is_space))
         (Lit (str ''-->'')))))))"

text \<open>\<open>/<!--\s*\/SIGNAL\s*-->/\<close>\<close>

definition SIGNAL_CLOSE :: regex where
  "SIGNAL_CLOSE =
     Seq (Lit (str ''<!--''))
    (Seq (Star (Cls is_space))
    (Seq (Lit (str ''/SIGNAL''))
    (Seq (Star (Cls is_space))
         (Lit (str ''-->'')))))"

text \<open>\<open>/(\w+)="([^"]*)"/g\<close>\<close>

definition ATTR_RE :: regex where
  "ATTR_RE =
     Seq (Grp 1 (Plus (Cls is_word)))
    (Seq (Lit (str ''=\"''))
    (Seq (Grp 2 (Star (Cls not_quote)))
         (Lit (str ''\"''))))"

definition LEGACY_COMPLETE :: jsstring where
  "LEGACY_COMPLETE = str ''<promise>COMPLETE</promise>''"

definition CLOSE_LITERAL :: jsstring where
  "CLOSE_LITERAL = str ''<!-- /SIGNAL -->''"

text \<open>
  \<open>attrs[k] = v\<close> on an object created by \<open>{}\<close>, with \<open>v\<close> a string. The
  key \<open>__proto__\<close> reaches the setter inherited from \<open>Object.prototype\<close>, which
  ignores a string; every other key becomes (or overwrites) an own property.
\<close>

definition set_prop :: "(jsstring \<rightharpoonup> jsstring) \<Rightarrow> jsstring \<Rightarrow> jsstring \<Rightarrow> (jsstring \<rightharpoonup> jsstring)" where
  "set_prop obj k v = (if k = str ''__proto__'' then obj else obj(k \<mapsto> v))"

text \<open>Every way of matching consumes input, never produces it.\<close>

lemma rx_match_Star_iff:
  "(s', c') \<in> set (rx_match (Star a) (s, c)) \<longleftrightarrow>
     (s', c') = (s, c) \<or>
     (\<exists>s1 c1. (s1, c1) \<in> set (rx_match a (s, c)) \<and> length s1 < length s \<and>
        (s', c') \<in> set (rx_match (Star a) (s1, c1)))"
  by (subst rx_match.simps(4)) (auto split: if_splits)

lemma rx_match_length:
  "(s', c') \<in> set (rx_match r (s, c)) \<Longrightarrow> length s' \<le> length s"
proof (induction r "(s, c)" arbitrary: s c s' c' rule: rx_match.induct)
  case (1 l s c)
  then show ?case by (auto split: if_splits)
next
  case (2 p s c)
  then show ?case by (auto split: list.splits if_splits)
next
  case (3 a b s c)
  from "3.prems" obtain s1 c1 where
    a: "(s1, c1) \<in> set (rx_match a (s, c))" and b: "(s', c') \<in> set (rx_match b (s1, c1))"
    by auto
  from "3.hyps"(1)[OF a] "3.hyps"(2)[OF a b] show ?case by simp
next
  case (4 a s c)
  from "4.prems" consider "(s', c') = (s, c)"
    | s1 c1 where "(s1, c1) \<in> set (rx_match a (s, c))" "length s1 < length s"
        "(s', c') \<in> set (rx_match (Star a) (s1, c1))"
    unfolding rx_match_Star_iff[of s' c' a s c] by blast
  then show ?case
  proof cases
    case 1
    then show ?thesis by simp
  next
    case 2
    from "4.hyps"(2)[OF 2(1) refl 2(2) 2(3)] 2(2) show ?thesis by simp
  qed
next
  case (5 n a s c)
  from "5.prems" obtain c1 where "(s', c1) \<in> set (rx_match a (s, c))" by auto
  from "5.hyps"[OF this] show ?case .
qed

lemma search_bounds:
  "search r i s = Some m \<Longrightarrow>
     i \<le> index m \<and> index m + length (matched m) \<le> i + length s"
proof (induction s arbitrary: i)
  case Nil
  then show ?case by (auto split: list.splits)
next
  case (Cons x xs)
  show ?case
  proof (cases "rx_match r (x # xs, Map.empty)")
    case Nil
    with Cons.prems have "search r (Suc i) xs = Some m" by simp
    from Cons.IH[OF this] show ?thesis by simp
  next
    case (Cons a list)
    with Cons.prems show ?thesis by (auto split: prod.splits)
  qed
qed

text \<open>A match of \<open>ATTR_RE\<close> is never empty: it starts with a word character.\<close>

lemma rx_match_Cls_consumes:
  "(s', c') \<in> set (rx_match (Cls p) (s, c)) \<Longrightarrow> length s' < length s"
  by (auto split: list.splits if_splits)

lemma rx_match_Seq_consumes:
  assumes a: "\<And>s1 c1. (s1, c1) \<in> set (rx_match a (s, c)) \<Longrightarrow> length s1 < length s"
    and m: "(s', c') \<in> set (rx_match (Seq a b) (s, c))"
  shows "length s' < length s"
proof -
  from m obtain s1 c1 where
    1: "(s1, c1) \<in> set (rx_match a (s, c))" and 2: "(s', c') \<in> set (rx_match b (s1, c1))"
    by auto
  from a[OF 1] rx_match_length[OF 2] show ?thesis by simp
qed

lemma rx_match_Grp_consumes:
  assumes a: "\<And>s1 c1. (s1, c1) \<in> set (rx_match a (s, c)) \<Longrightarrow> length s1 < length s"
    and m: "(s', c') \<in> set (rx_match (Grp n a) (s, c))"
  shows "length s' < length s"
proof -
  from m obtain c1 where "(s', c1) \<in> set (rx_match a (s, c))" by auto
  from a[OF this] show ?thesis .
qed

lemma ATTR_RE_consumes:
  assumes "(s', c') \<in> set (rx_match ATTR_RE (s, c))"
  shows "length s' < length s"
  using assms unfolding ATTR_RE_def Plus_def
  by (elim rx_match_Seq_consumes[rotated] rx_match_Grp_consumes[rotated]
           rx_match_Cls_consumes)

lemma search_ATTR_RE_nonempty:
  "search ATTR_RE i s = Some m \<Longrightarrow> 0 < length (matched m)"
proof (induction s arbitrary: i)
  case Nil
  show ?case
  proof (cases "rx_match ATTR_RE ([], Map.empty)")
    case Nil
    with Nil.prems show ?thesis by simp
  next
    case (Cons a list)
    obtain s' c' where a: "a = (s', c')" by (cases a)
    with Cons have "(s', c') \<in> set (rx_match ATTR_RE ([], Map.empty))" by simp
    from ATTR_RE_consumes[OF this] show ?thesis by simp
  qed
next
  case (Cons x xs)
  show ?case
  proof (cases "rx_match ATTR_RE (x # xs, Map.empty)")
    case Nil
    with Cons.prems have "search ATTR_RE (Suc i) xs = Some m" by simp
    from Cons.IH[OF this] show ?thesis .
  next
    case (Cons a list)
    obtain s' c' where a: "a = (s', c')" by (cases a)
    with Cons have "(s', c') \<in> set (rx_match ATTR_RE (x # xs, Map.empty))" by simp
    from ATTR_RE_consumes[OF this] Cons a Cons.prems show ?thesis by auto
  qed
qed

text \<open>
  \<open>parseAttrs\<close>: the loop \<open>while ((m = ATTR_RE.exec(raw)) !== null)\<close>. The
  expression has the \<open>g\<close> flag, so each \<open>exec\<close> searches from \<open>lastIndex\<close>,
  which a match sets to its end. The failing \<open>exec\<close> that ends the loop
  resets \<open>lastIndex\<close> to 0, so every call of \<open>parseAttrs\<close> starts there.
\<close>

function parseAttrs_loop ::
  "jsstring \<Rightarrow> nat \<Rightarrow> (jsstring \<rightharpoonup> jsstring) \<Rightarrow> (jsstring \<rightharpoonup> jsstring)" where
  "parseAttrs_loop raw lastIndex acc =
     (case search ATTR_RE lastIndex (drop lastIndex raw) of
        None \<Rightarrow> acc
      | Some m \<Rightarrow>
          parseAttrs_loop raw (index m + length (matched m))
            (set_prop acc (capture m 1) (capture m 2)))"
  by pat_completeness auto
termination
proof (relation "measure (\<lambda>(raw, lastIndex, acc). length raw - lastIndex)")
  show "wf (measure (\<lambda>(raw, lastIndex, acc). length raw - lastIndex))" by simp
next
  fix raw :: jsstring and lastIndex :: nat and acc :: "jsstring \<rightharpoonup> jsstring" and m
  assume m: "search ATTR_RE lastIndex (drop lastIndex raw) = Some m"
  from search_bounds[OF m] search_ATTR_RE_nonempty[OF m]
  show "((raw, index m + length (matched m), set_prop acc (capture m 1) (capture m 2)),
         (raw, lastIndex, acc))
        \<in> measure (\<lambda>(raw, lastIndex, acc). length raw - lastIndex)"
    by (simp del: length_greater_0_conv) arith
qed

declare search.simps [simp del]
declare parseAttrs_loop.simps [simp del]

definition parseAttrs :: "jsstring \<Rightarrow> (jsstring \<rightharpoonup> jsstring)" where
  "parseAttrs raw = parseAttrs_loop raw 0 Map.empty"

text \<open>
  The state of a \<open>SignalParser\<close>: \<open>pending\<close> is \<open>null\<close> or the type and
  attributes of the open block, \<open>bodyLines\<close> the body lines read so far.
\<close>

record SignalParser =
  pending :: "tagged option"
  bodyLines :: "jsstring list"

definition new_SignalParser :: SignalParser where
  "new_SignalParser = \<lparr>pending = None, bodyLines = []\<rparr>"

text \<open>
  \<open>feed(line)\<close>: the returned Signal (\<open>None\<close> for \<open>null\<close>) and the parser
  after the call.
\<close>

definition feed :: "SignalParser \<Rightarrow> jsstring \<Rightarrow> Signal option \<times> SignalParser" where
  "feed p line =
     (if includes_str line LEGACY_COMPLETE then
        (Some \<lparr>type = str ''COMPLETE'', attrs = Map.empty, body = []\<rparr>, p)
      else if pending p \<noteq> None \<and> test SIGNAL_CLOSE line then
        (Some \<lparr>type = type (the (pending p)), attrs = attrs (the (pending p)),
                body = trim (join (str ''\<newline>'') (bodyLines p))\<rparr>,
         p\<lparr>pending := None, bodyLines := []\<rparr>)
      else
        (case exec SIGNAL_OPEN line of
           Some open_m \<Rightarrow>
             (let ty = capture open_m 1;
                  at = parseAttrs (capture open_m 2)
              in if test SIGNAL_CLOSE line then
                   (let afterOpen = drop (index open_m + length (matched open_m)) line;
                        closeIdx = indexOf afterOpen CLOSE_LITERAL;
                        bd = (if closeIdx \<ge> 0 then trim (take (nat closeIdx) afterOpen) else [])
                    in (Some \<lparr>type = ty, attrs = at, body = bd\<rparr>, p))
                 else
                   (None, p\<lparr>pending := Some \<lparr>type = ty, attrs = at\<rparr>, bodyLines := []\<rparr>))
         | None \<Rightarrow>
             (if pending p \<noteq> None then (None, p\<lparr>bodyLines := bodyLines p @ [line]\<rparr>)
              else (None, p))))"

text \<open>\<open>reset()\<close>.\<close>

definition reset :: "SignalParser \<Rightarrow> SignalParser" where
  "reset p = p\<lparr>pending := None, bodyLines := []\<rparr>"

text \<open>
  A sequence of \<open>feed\<close> calls on one parser: the result of each call, in
  order, and the parser after the last.
\<close>

fun feed_lines :: "SignalParser \<Rightarrow> jsstring list \<Rightarrow> Signal option list \<times> SignalParser" where
  "feed_lines p [] = ([], p)"
| "feed_lines p (l # ls) =
     (case feed p l of (r, p') \<Rightarrow>
        (case feed_lines p' ls of (rs, p'') \<Rightarrow> (r # rs, p'')))"

text \<open>A sequence of calls of either method on one parser.\<close>

datatype parser_call = Feed jsstring | Reset

fun run_calls :: "SignalParser \<Rightarrow> parser_call list \<Rightarrow> SignalParser" where
  "run_calls p [] = p"
| "run_calls p (Feed l # cs) = run_calls (snd (feed p l)) cs"
| "run_calls p (Reset # cs) = run_calls (reset p) cs"


section \<open>The process runner (\<open>src/agents/spawn.ts\<close>)\<close>

text \<open>
  What \<open>spawnAgent\<close> does with the two output streams of the child. A
  stream is the list of the chunks that the successive \<open>reader.read()\<close>
  calls return, in order; the end of the list is \<open>done\<close>.

  \<open>TextDecoder\<close> belongs to the platform. It is a parameter here: a function
  from the decoder's state and a chunk of bytes to the decoded text and the
  next state (\<open>decoder.decode(value, {stream: true})\<close>); the type of bytes
  is a parameter too.

  A callback (\<open>onOutput\<close>, \<open>onSignal\<close>) is modelled by the effects it has
  when it is called, as a list of events of a type \<open>'e\<close>; \<open>undefined\<close> is
  \<open>None\<close>. Callbacks that throw are not modelled.
\<close>

type_synonym ('d, 'b) decoder = "'d \<Rightarrow> 'b list \<Rightarrow> jsstring \<times> 'd"

record 'e SpawnOptions =
  onSignal :: "(Signal \<Rightarrow> 'e list) option"
  onOutput :: "(jsstring \<Rightarrow> 'e list) option"

text \<open>\<open>cb?.(x)\<close>\<close>

definition call_opt :: "('a \<Rightarrow> 'e list) option \<Rightarrow> 'a \<Rightarrow> 'e list" where
  "call_opt cb x = (case cb of None \<Rightarrow> [] | Some f \<Rightarrow> f x)"

text \<open>
  The variables that the two \<open>readStream\<close> calls share: the parser, the
  signals and the output lines collected so far; and what the run has done
  to the outside: the effects of the callbacks, in order, and the strings
  written to \<open>process.stderr\<close>, in order.
\<close>

record 'e run_state =
  parser :: SignalParser
  signals :: "Signal list"
  outputLines :: "jsstring list"
  effects :: "'e list"
  stderr_written :: "jsstring list"

definition init_run :: "'e run_state" where
  "init_run = \<lparr>parser = new_SignalParser, signals = [], outputLines = [],
               effects = [], stderr_written = []\<rparr>"

text \<open>
  The statements run for one line of standard output (lines 84 to 91, and
  again lines 101 to 107 for the remaining buffer).
\<close>

definition stdout_line :: "'e SpawnOptions \<Rightarrow> jsstring \<Rightarrow> 'e run_state \<Rightarrow> 'e run_state" where
  "stdout_line opts line st =
     (let st1 = st\<lparr>outputLines := outputLines st @ [line],
                    effects := effects st @ call_opt (onOutput opts) line\<rparr>
      in case feed (parser st1) line of
           (None, p') \<Rightarrow> st1\<lparr>parser := p'\<rparr>
         | (Some signal, p') \<Rightarrow>
             st1\<lparr>parser := p', signals := signals st1 @ [signal],
                 effects := effects st1 @ call_opt (onSignal opts) signal\<rparr>)"

text \<open>The body of \<open>for (const line of lines)\<close>.\<close>

definition each_line :: "'e SpawnOptions \<Rightarrow> bool \<Rightarrow> jsstring \<Rightarrow> 'e run_state \<Rightarrow> 'e run_state" where
  "each_line opts isStdout line st =
     (if isStdout then stdout_line opts line st
      else st\<lparr>stderr_written := stderr_written st @ [line @ str ''\<newline>'']\<rparr>)"

text \<open>
  The \<open>while (true)\<close> loop of \<open>readStream\<close>, over the chunks still to be
  read; the state is the decoder's, \<open>buffer\<close> and the shared variables.
\<close>

fun read_loop ::
  "('d, 'b) decoder \<Rightarrow> 'e SpawnOptions \<Rightarrow> bool \<Rightarrow> 'b list list \<Rightarrow>
   'd \<times> jsstring \<times> 'e run_state \<Rightarrow> 'd \<times> jsstring \<times> 'e run_state" where
  "read_loop dec opts isStdout [] (d, buffer, st) = (d, buffer, st)"
| "read_loop dec opts isStdout (chunk # rest) (d, buffer, st) =
     (case dec d chunk of (text, d') \<Rightarrow>
        (let buffer1 = buffer @ text;
             lines = split_nl buffer1;
             buffer2 = (if lines = [] then [] else last lines);
             lines' = butlast lines
         in read_loop dec opts isStdout rest
              (d', buffer2, fold (each_line opts isStdout) lines' st)))"

text \<open>
  \<open>readStream(stream, isStdout)\<close>; a \<open>null\<close> stream is \<open>None\<close>. \<open>d0\<close> is
  the state of a new decoder.
\<close>

definition readStream ::
  "('d, 'b) decoder \<Rightarrow> 'd \<Rightarrow> 'e SpawnOptions \<Rightarrow> 'b list list option \<Rightarrow> bool \<Rightarrow>
   'e run_state \<Rightarrow> 'e run_state" where
  "readStream dec d0 opts stream isStdout st =
     (case stream of
        None \<Rightarrow> st
      | Some chunks \<Rightarrow>
          (case read_loop dec opts isStdout chunks (d0, [], st) of
             (d, buffer, st') \<Rightarrow>
               if length buffer > 0 \<and> isStdout then stdout_line opts buffer st' else st'))"

record AgentResult =
  exitCode :: int
  stdout :: jsstring
  result_signals :: "Signal list"

text \<open>
  The two \<open>readStream\<close> calls of \<open>spawnAgent\<close> run concurrently, one
  iteration of a loop at a time. The model runs the one for standard output
  first, then the one for standard error; the order does not matter, as is
  proved below (\<open>run_streams_either_order\<close>).
\<close>

definition run_streams ::
  "('d, 'b) decoder \<Rightarrow> 'd \<Rightarrow> 'e SpawnOptions \<Rightarrow> 'b list list \<Rightarrow> 'b list list \<Rightarrow> 'e run_state" where
  "run_streams dec d0 opts out_chunks err_chunks =
     readStream dec d0 opts (Some err_chunks) False
       (readStream dec d0 opts (Some out_chunks) True init_run)"

text \<open>
  \<open>spawnAgent\<close>, from the chunks of the two streams and the exit code of the
  child; starting the child, the prompt and the timeout are outside the model.
\<close>

definition spawnAgent ::
  "('d, 'b) decoder \<Rightarrow> 'd \<Rightarrow> 'e SpawnOptions \<Rightarrow> 'b list list \<Rightarrow> 'b list list \<Rightarrow> int \<Rightarrow> AgentResult" where
  "spawnAgent dec d0 opts out_chunks err_chunks code =
     (let st = run_streams dec d0 opts out_chunks err_chunks
      in \<lparr>exitCode = code, stdout = join (str ''\<newline>'') (outputLines st),
          result_signals = signals st\<rparr>)"

text \<open>
  What the model asks of a streaming decoder: an empty chunk decodes to
  nothing, and cutting a chunk in two changes neither the decoded text nor
  the state reached.
\<close>

definition streaming :: "('d, 'b) decoder \<Rightarrow> bool" where
  "streaming dec \<longleftrightarrow>
     (\<forall>d. dec d [] = ([], d)) \<and>
     (\<forall>d a b. dec d (a @ b) =
        (case dec d a of (s1, d1) \<Rightarrow> (case dec d1 b of (s2, d2) \<Rightarrow> (s1 @ s2, d2))))"

text \<open>A decoder of one byte per code unit (ASCII, Latin-1), which has no state.\<close>

definition bytewise :: "(unit, nat) decoder" where
  "bytewise d bs = (bs, d)"


section \<open>The monitor (\<open>src/agents/monitor.ts\<close>)\<close>

text \<open>
  A handler supplied by the caller is opaque: \<open>'h\<close> is the type of handlers,
  and calling one is the event \<open>Invoke h signal\<close>. The handlers are called
  synchronously, before the \<open>await\<close> of \<open>onSignal\<close>; what an asynchronous
  handler does after its own first \<open>await\<close> is outside the model, and so are
  handlers that throw.

  \<open>handlers\<close> is a plain object (\<open>{}\<close> when omitted), so
  \<open>handlers[signal.type]\<close> finds an own property or, failing that, a
  property inherited from \<open>Object.prototype\<close>; the type of a signal is any
  word the child wrote. The inherited functions are truthy and are called
  with the signal (\<open>InvokeInherited\<close>); \<open>__proto__\<close> reads as the prototype
  object, which is truthy and not a function, so that the call raises a
  TypeError (\<open>CallNonFunction\<close>). A TypeError raised there, or by an inherited
  function called without \<open>this\<close>, rejects the promise that \<open>onSignal\<close>
  returns; \<open>spawnAgent\<close> drops that promise and goes on. What the runtime
  does about a rejected promise that nobody handles is outside the model.
\<close>

datatype 'h event =
    StdoutWrite jsstring
  | Invoke 'h Signal
  | InvokeInherited jsstring Signal
  | CallNonFunction Signal

record 'h MonitorOptions =
  passthrough :: "bool option"
  handlers :: "(jsstring \<rightharpoonup> 'h) option"
  onAnySignal :: "'h option"

text \<open>The names of the function-valued properties of \<open>Object.prototype\<close>.\<close>

definition Object_prototype_functions :: "jsstring list" where
  "Object_prototype_functions =
     map str [''constructor'', ''hasOwnProperty'', ''isPrototypeOf'', ''propertyIsEnumerable'',
              ''toLocaleString'', ''toString'', ''valueOf'', ''__defineGetter__'',
              ''__defineSetter__'', ''__lookupGetter__'', ''__lookupSetter__'']"

text \<open>
  \<open>obj[k]\<close> for a plain object with the own properties \<open>obj\<close>: \<open>None\<close> is
  \<open>undefined\<close>.
\<close>

datatype 'h property = Own 'h | InheritedFunction jsstring | PrototypeObject

definition get_property :: "(jsstring \<rightharpoonup> 'h) \<Rightarrow> jsstring \<Rightarrow> 'h property option" where
  "get_property obj k =
     (case obj k of
        Some h \<Rightarrow> Some (Own h)
      | None \<Rightarrow>
          if k = str ''__proto__'' then Some PrototypeObject
          else if k \<in> set Object_prototype_functions then Some (InheritedFunction k)
          else None)"

text \<open>The options that \<open>monitorAgent\<close> passes to \<open>spawnAgent\<close>.\<close>

definition monitor_options :: "'h MonitorOptions \<Rightarrow> 'h event SpawnOptions" where
  "monitor_options opts =
     (let passthrough' = (case passthrough opts of None \<Rightarrow> True | Some b \<Rightarrow> b);
          handlers' = (case handlers opts of None \<Rightarrow> Map.empty | Some hs \<Rightarrow> hs)
      in \<lparr>onSignal = Some (\<lambda>signal.
              (case onAnySignal opts of None \<Rightarrow> [] | Some h \<Rightarrow> [Invoke h signal]) @
              (case get_property handlers' (type signal) of
                 None \<Rightarrow> []
               | Some (Own handler) \<Rightarrow> [Invoke handler signal]
               | Some (InheritedFunction name) \<Rightarrow> [InvokeInherited name signal]
               | Some PrototypeObject \<Rightarrow> [CallNonFunction signal])),
          onOutput = (if passthrough' then Some (\<lambda>line. [StdoutWrite (line @ str ''\<newline>'')])
                      else None)\<rparr>)"

text \<open>\<open>monitorAgent\<close>: the result it returns.\<close>

definition monitorAgent ::
  "('d, 'b) decoder \<Rightarrow> 'd \<Rightarrow> 'h MonitorOptions \<Rightarrow> 'b list list \<Rightarrow> 'b list list \<Rightarrow> int \<Rightarrow> AgentResult" where
  "monitorAgent dec d0 opts out_chunks err_chunks code =
     spawnAgent dec d0 (monitor_options opts) out_chunks err_chunks code"

text \<open>
  \<open>monitorAgent\<close>: what the call does to the outside, that is, the effects
  of the callbacks during the run of \<open>spawnAgent\<close> that it starts.
\<close>

definition monitorAgent_effects ::
  "('d, 'b) decoder \<Rightarrow> 'd \<Rightarrow> 'h MonitorOptions \<Rightarrow> 'b list list \<Rightarrow> 'b list list \<Rightarrow> 'h event list" where
  "monitorAgent_effects dec d0 opts out_chunks err_chunks =
     effects (run_streams dec d0 (monitor_options opts) out_chunks err_chunks)"

text \<open>
  The lines of a stream, from its whole decoded text: the pieces that a line
  feed ends, and after them what follows the last line feed, unless that is
  empty.
\<close>

definition stream_lines :: "jsstring \<Rightarrow> jsstring list" where
  "stream_lines text =
     butlast (split_nl text) @
     (if last (split_nl text) = [] then [] else [last (split_nl text)])"

text \<open>
  What the specification says a monitored run does, line by line: the raw
  line is echoed to standard output unless \<open>passthrough\<close> is \<open>false\<close>; if
  the line completes a signal, the catch-all handler is invoked for it, and
  then the handler registered for its type.
\<close>

fun spec_monitor_trace :: "'h MonitorOptions \<Rightarrow> SignalParser \<Rightarrow> jsstring list \<Rightarrow> 'h event list" where
  "spec_monitor_trace opts p [] = []"
| "spec_monitor_trace opts p (line # rest) =
     (case feed p line of (completed, p') \<Rightarrow>
        (if passthrough opts = Some False then [] else [StdoutWrite (line @ str ''\<newline>'')]) @
        (case completed of
           None \<Rightarrow> []
         | Some signal \<Rightarrow>
             (case onAnySignal opts of None \<Rightarrow> [] | Some h \<Rightarrow> [Invoke h signal]) @
             (case handlers opts of
                None \<Rightarrow> []
              | Some hs \<Rightarrow> (case hs (type signal) of None \<Rightarrow> [] | Some h \<Rightarrow> [Invoke h signal]))) @
        spec_monitor_trace opts p' rest)"

text \<open>
  The events that the specification speaks of: the echo of a line and the
  call of a handler that the caller supplied.
\<close>

fun caller_event :: "'h event \<Rightarrow> bool" where
  "caller_event (StdoutWrite l) = True"
| "caller_event (Invoke h s) = True"
| "caller_event (InvokeInherited n s) = False"
| "caller_event (CallNonFunction s) = False"

text \<open>The signals that a sequence of \<open>feed\<close> calls completes, in order.\<close>

definition completed_signals :: "SignalParser \<Rightarrow> jsstring list \<Rightarrow> Signal list" where
  "completed_signals p ls = List.map_filter (\<lambda>r. r) (fst (feed_lines p ls))"


section \<open>Properties of the signal parser\<close>

subsection \<open>The cases of \<open>feed\<close>\<close>

lemma nl: "str ''\<newline>'' = [10]" by (simp add: str_def)

lemma feed_legacy:
  "includes_str line LEGACY_COMPLETE \<Longrightarrow>
     feed p line = (Some \<lparr>type = str ''COMPLETE'', attrs = Map.empty, body = []\<rparr>, p)"
  by (simp add: feed_def)

lemma feed_close:
  "\<not> includes_str line LEGACY_COMPLETE \<Longrightarrow> pending p = Some pd \<Longrightarrow> test SIGNAL_CLOSE line \<Longrightarrow>
     feed p line =
       (Some \<lparr>type = type pd, attrs = attrs pd, body = trim (join (str ''\<newline>'') (bodyLines p))\<rparr>,
        p\<lparr>pending := None, bodyLines := []\<rparr>)"
  by (simp add: feed_def)

lemma feed_open:
  "\<not> includes_str line LEGACY_COMPLETE \<Longrightarrow> \<not> test SIGNAL_CLOSE line \<Longrightarrow>
   exec SIGNAL_OPEN line = Some m \<Longrightarrow>
     feed p line =
       (None, p\<lparr>pending := Some \<lparr>type = capture m 1, attrs = parseAttrs (capture m 2)\<rparr>,
                bodyLines := []\<rparr>)"
  by (simp add: feed_def)

lemma feed_self_closing:
  "\<not> includes_str line LEGACY_COMPLETE \<Longrightarrow> pending p = None \<Longrightarrow> test SIGNAL_CLOSE line \<Longrightarrow>
   exec SIGNAL_OPEN line = Some m \<Longrightarrow>
     feed p line =
       (Some \<lparr>type = capture m 1, attrs = parseAttrs (capture m 2),
              body = (if indexOf (drop (index m + length (matched m)) line) CLOSE_LITERAL \<ge> 0
                      then trim (take (nat (indexOf (drop (index m + length (matched m)) line) CLOSE_LITERAL))
                                      (drop (index m + length (matched m)) line))
                      else [])\<rparr>, p)"
  by (simp add: feed_def Let_def)

lemma feed_body:
  "\<not> includes_str line LEGACY_COMPLETE \<Longrightarrow> \<not> test SIGNAL_CLOSE line \<Longrightarrow>
   exec SIGNAL_OPEN line = None \<Longrightarrow> pending p = Some pd \<Longrightarrow>
     feed p line = (None, p\<lparr>bodyLines := bodyLines p @ [line]\<rparr>)"
  by (simp add: feed_def)

lemma feed_preserves_inv:
  "(pending p = None \<longrightarrow> bodyLines p = []) \<Longrightarrow>
   pending (snd (feed p line)) = None \<longrightarrow> bodyLines (snd (feed p line)) = []"
  by (auto simp: feed_def Let_def split: option.splits if_splits)

lemma reset_new: "reset p = new_SignalParser"
  by (simp add: reset_def new_SignalParser_def)

subsection \<open>Evaluation on concrete lines\<close>

lemmas eval_defs = str_def exec_def test_def search.simps rx_match.simps(4)
  SIGNAL_OPEN_def SIGNAL_CLOSE_def ATTR_RE_def Plus_def is_space_def is_word_def
  not_quote_def capture_def LEGACY_COMPLETE_def CLOSE_LITERAL_def parseAttrs_def
  parseAttrs_loop.simps set_prop_def new_SignalParser_def indexOf_def trim_def

lemma ex_open_T:
  "\<exists>m. exec SIGNAL_OPEN (str ''<!-- SIGNAL:T k=\"v\" -->'') = Some m \<and>
     capture m 1 = str ''T'' \<and> capture m 2 = str '' k=\"v\"''"
  by (simp add: eval_defs)

lemma ex_open_TASK:
  "\<exists>m. exec SIGNAL_OPEN (str ''<!-- SIGNAL:TASK_COMPLETE task=\"T1\" -->'') = Some m \<and>
     capture m 1 = str ''TASK_COMPLETE'' \<and> capture m 2 = str '' task=\"T1\"''"
  by (simp add: eval_defs)

subsection \<open>An open marker while a block is pending\<close>

text \<open>
  C1, as stated, fails. With the block \<open>A\<close> pending and the body line \<open>x\<close>
  read, the line \<open><!-- SIGNAL:B -->\<close> matches the open-marker pattern and has
  no close marker; \<open>feed\<close> returns nothing, but the line is not appended to
  the body: the body is emptied and the pending block is now \<open>B\<close>.
\<close>

theorem C1_counterexample:
  "test SIGNAL_OPEN (str ''<!-- SIGNAL:B -->'') \<and>
   \<not> test SIGNAL_CLOSE (str ''<!-- SIGNAL:B -->'') \<and>
   fst (feed \<lparr>pending = Some \<lparr>type = str ''A'', attrs = Map.empty\<rparr>, bodyLines = [str ''x'']\<rparr>
          (str ''<!-- SIGNAL:B -->'')) = None \<and>
   bodyLines (snd (feed \<lparr>pending = Some \<lparr>type = str ''A'', attrs = Map.empty\<rparr>, bodyLines = [str ''x'']\<rparr>
          (str ''<!-- SIGNAL:B -->''))) = [] \<and>
   map_option type (pending (snd (feed \<lparr>pending = Some \<lparr>type = str ''A'', attrs = Map.empty\<rparr>, bodyLines = [str ''x'']\<rparr>
          (str ''<!-- SIGNAL:B -->'')))) = Some (str ''B'')"
  by (simp add: feed_def eval_defs)

text \<open>
  C1, amended. With a block pending, a line that matches the open-marker
  pattern and contains neither a close marker nor the legacy literal starts
  a new block: \<open>feed\<close> returns nothing, the pending block becomes the type
  and attributes of the new open marker, and the accumulated body is
  discarded.
\<close>

theorem C1_open_replaces_pending:
  "pending p = Some pd \<Longrightarrow> exec SIGNAL_OPEN line = Some m \<Longrightarrow>
   \<not> test SIGNAL_CLOSE line \<Longrightarrow> \<not> includes_str line LEGACY_COMPLETE \<Longrightarrow>
     feed p line =
       (None, p\<lparr>pending := Some \<lparr>type = capture m 1, attrs = parseAttrs (capture m 2)\<rparr>,
                bodyLines := []\<rparr>)"
  by (simp add: feed_open)

theorem C1_witness:
  "feed \<lparr>pending = Some \<lparr>type = str ''A'', attrs = Map.empty\<rparr>, bodyLines = [str ''x'']\<rparr>
        (str ''<!-- SIGNAL:T k=\"v\" -->'') =
     (None, \<lparr>pending = Some \<lparr>type = str ''T'', attrs = [str ''k'' \<mapsto> str ''v'']\<rparr>,
             bodyLines = []\<rparr>)"
proof -
  obtain m where m: "exec SIGNAL_OPEN (str ''<!-- SIGNAL:T k=\"v\" -->'') = Some m"
    and m1: "capture m 1 = str ''T''" and m2: "capture m 2 = str '' k=\"v\"''"
    using ex_open_T by blast
  have c: "\<not> test SIGNAL_CLOSE (str ''<!-- SIGNAL:T k=\"v\" -->'')"
    by (simp add: eval_defs)
  have l: "\<not> includes_str (str ''<!-- SIGNAL:T k=\"v\" -->'') LEGACY_COMPLETE"
    by (simp add: str_def LEGACY_COMPLETE_def)
  have a: "parseAttrs (str '' k=\"v\"'') = [str ''k'' \<mapsto> str ''v'']"
    by (simp add: eval_defs)
  from C1_open_replaces_pending[OF _ m c l,
      of "\<lparr>pending = Some \<lparr>type = str ''A'', attrs = Map.empty\<rparr>, bodyLines = [str ''x'']\<rparr>"
         "\<lparr>type = str ''A'', attrs = Map.empty\<rparr>"] m1 m2 a
  show ?thesis by simp
qed

subsection \<open>The legacy completion literal\<close>

text \<open>
  C2. For every parser state and every line that contains
  \<open><promise>COMPLETE</promise>\<close>, \<open>feed\<close> returns the signal of type COMPLETE
  with no attribute and an empty body, and the parser is as it was: neither
  the close marker, nor the open marker, nor the body is looked at.
\<close>

theorem C2_legacy_complete_first:
  "includes_str line LEGACY_COMPLETE \<Longrightarrow>
     feed p line = (Some \<lparr>type = str ''COMPLETE'', attrs = Map.empty, body = []\<rparr>, p)"
  by (rule feed_legacy)

theorem C2_witness:
  "includes_str (str ''<!-- SIGNAL:B --><promise>COMPLETE</promise><!-- /SIGNAL -->'') LEGACY_COMPLETE \<and>
   feed \<lparr>pending = Some \<lparr>type = str ''A'', attrs = Map.empty\<rparr>, bodyLines = [str ''x'']\<rparr>
        (str ''<!-- SIGNAL:B --><promise>COMPLETE</promise><!-- /SIGNAL -->'') =
     (Some \<lparr>type = str ''COMPLETE'', attrs = Map.empty, body = []\<rparr>,
      \<lparr>pending = Some \<lparr>type = str ''A'', attrs = Map.empty\<rparr>, bodyLines = [str ''x'']\<rparr>)"
proof -
  have h: "includes_str (str ''<!-- SIGNAL:B --><promise>COMPLETE</promise><!-- /SIGNAL -->'') LEGACY_COMPLETE"
    by (simp add: str_def LEGACY_COMPLETE_def)
  from h C2_legacy_complete_first[OF h] show ?thesis by simp
qed

text \<open>
  C5. With a block pending, a line that contains the legacy literal emits
  the COMPLETE signal and leaves the pending block and the accumulated body
  lines as they were.
\<close>

theorem C5_legacy_keeps_pending:
  "pending p = Some pd \<Longrightarrow> includes_str line LEGACY_COMPLETE \<Longrightarrow>
     fst (feed p line) = Some \<lparr>type = str ''COMPLETE'', attrs = Map.empty, body = []\<rparr> \<and>
     pending (snd (feed p line)) = Some pd \<and>
     bodyLines (snd (feed p line)) = bodyLines p"
  by (simp add: feed_legacy)

theorem C5_witness:
  "fst (feed \<lparr>pending = Some \<lparr>type = str ''A'', attrs = Map.empty\<rparr>, bodyLines = [str ''x'']\<rparr>
             (str ''<promise>COMPLETE</promise><!-- /SIGNAL -->'')) =
     Some \<lparr>type = str ''COMPLETE'', attrs = Map.empty, body = []\<rparr> \<and>
   pending (snd (feed \<lparr>pending = Some \<lparr>type = str ''A'', attrs = Map.empty\<rparr>, bodyLines = [str ''x'']\<rparr>
             (str ''<promise>COMPLETE</promise><!-- /SIGNAL -->''))) =
     Some \<lparr>type = str ''A'', attrs = Map.empty\<rparr> \<and>
   bodyLines (snd (feed \<lparr>pending = Some \<lparr>type = str ''A'', attrs = Map.empty\<rparr>, bodyLines = [str ''x'']\<rparr>
             (str ''<promise>COMPLETE</promise><!-- /SIGNAL -->''))) = [str ''x'']"
proof -
  have h: "includes_str (str ''<promise>COMPLETE</promise><!-- /SIGNAL -->'') LEGACY_COMPLETE"
    by (simp add: str_def LEGACY_COMPLETE_def)
  from C5_legacy_keeps_pending[OF _ h,
      of "\<lparr>pending = Some \<lparr>type = str ''A'', attrs = Map.empty\<rparr>, bodyLines = [str ''x'']\<rparr>"
         "\<lparr>type = str ''A'', attrs = Map.empty\<rparr>"]
  show ?thesis by simp
qed

subsection \<open>Reset\<close>

text \<open>
  C6. After any prefix of a block has been fed to a parser, \<open>reset()\<close>
  followed by the whole block gives the results, and the final state, that a
  new parser gives on the whole block; \<open>reset()\<close> clears the state of any
  parser.
\<close>

theorem C6_reset_then_refeed:
  "feed_lines (reset (snd (feed_lines p (take n block)))) block =
     feed_lines new_SignalParser block \<and>
   pending (reset q) = None \<and> bodyLines (reset q) = []"
  by (simp add: reset_new new_SignalParser_def)

subsection \<open>No body without a pending block\<close>

lemma run_calls_inv:
  "(pending p = None \<longrightarrow> bodyLines p = []) \<Longrightarrow>
   pending (run_calls p cs) = None \<longrightarrow> bodyLines (run_calls p cs) = []"
proof (induction cs arbitrary: p)
  case Nil
  then show ?case by simp
next
  case (Cons c cs)
  show ?case
  proof (cases c)
    case (Feed l)
    from Cons.IH[OF feed_preserves_inv[OF Cons.prems, of l]] Feed show ?thesis by simp
  next
    case Reset
    have "pending (reset p) = None \<longrightarrow> bodyLines (reset p) = []" by (simp add: reset_def)
    from Cons.IH[OF this] Reset show ?thesis by simp
  qed
qed

text \<open>
  C10. After each call of a sequence of \<open>feed\<close> and \<open>reset\<close> calls on a new
  parser (that is, after the first \<open>n\<close> calls, for every \<open>n\<close>), the body
  lines are empty whenever no block is pending.
\<close>

theorem C10_no_stale_body:
  "pending (run_calls new_SignalParser (take n cs)) = None \<longrightarrow>
   bodyLines (run_calls new_SignalParser (take n cs)) = []"
  by (rule run_calls_inv) (simp add: new_SignalParser_def)

theorem C10_witness:
  "pending (run_calls new_SignalParser
      [Feed (str ''<!-- SIGNAL:T k=\"v\" -->''), Feed (str ''Done''), Reset, Feed (str ''x'')]) = None \<and>
   bodyLines (run_calls new_SignalParser
      [Feed (str ''<!-- SIGNAL:T k=\"v\" -->''), Feed (str ''Done''), Reset, Feed (str ''x'')]) = []"
proof -
  have h: "pending (run_calls new_SignalParser
      [Feed (str ''<!-- SIGNAL:T k=\"v\" -->''), Feed (str ''Done''), Reset, Feed (str ''x'')]) = None"
    by (simp add: feed_def reset_def eval_defs)
  from h C10_no_stale_body[of 4
      "[Feed (str ''<!-- SIGNAL:T k=\"v\" -->''), Feed (str ''Done''), Reset, Feed (str ''x'')]"]
  show ?thesis by simp
qed

subsection \<open>Multi-line blocks\<close>

lemma feed_lines_body:
  assumes "\<forall>b \<in> set bs. exec SIGNAL_OPEN b = None \<and> \<not> test SIGNAL_CLOSE b \<and>
             \<not> includes_str b LEGACY_COMPLETE"
    and "pending p = Some pd"
  shows "feed_lines p (bs @ rest) =
     (replicate (length bs) None @ fst (feed_lines (p\<lparr>bodyLines := bodyLines p @ bs\<rparr>) rest),
      snd (feed_lines (p\<lparr>bodyLines := bodyLines p @ bs\<rparr>) rest))"
  using assms
proof (induction bs arbitrary: p)
  case Nil
  then show ?case by simp
next
  case (Cons b bs)
  from Cons.prems have f: "feed p b = (None, p\<lparr>bodyLines := bodyLines p @ [b]\<rparr>)"
    by (simp add: feed_body)
  have "pending (p\<lparr>bodyLines := bodyLines p @ [b]\<rparr>) = Some pd"
    using Cons.prems by simp
  from Cons.IH[OF _ this] Cons.prems(1) f show ?case
    by (simp add: split_beta)
qed

text \<open>
  C4, as stated, fails: the open-marker line of a block may itself contain
  the legacy literal, here as the value of an attribute. The line is an open
  marker and nothing else, the body line and the close-marker line are as
  the claim asks; \<open>feed\<close> returns the COMPLETE signal on the open-marker
  line, and no Signal on the close-marker line.
\<close>

theorem C4_counterexample:
  "map_option matched
     (exec SIGNAL_OPEN (str ''<!-- SIGNAL:BLOCKED reason=\"<promise>COMPLETE</promise>\" -->'')) =
     Some (str ''<!-- SIGNAL:BLOCKED reason=\"<promise>COMPLETE</promise>\" -->'') \<and>
   \<not> test SIGNAL_CLOSE (str ''<!-- SIGNAL:BLOCKED reason=\"<promise>COMPLETE</promise>\" -->'') \<and>
   exec SIGNAL_OPEN (str ''wait'') = None \<and> \<not> test SIGNAL_CLOSE (str ''wait'') \<and>
   \<not> includes_str (str ''wait'') LEGACY_COMPLETE \<and>
   test SIGNAL_CLOSE (str ''<!-- /SIGNAL -->'') \<and>
   map (map_option type) (fst (feed_lines new_SignalParser
     [str ''<!-- SIGNAL:BLOCKED reason=\"<promise>COMPLETE</promise>\" -->'', str ''wait'',
      str ''<!-- /SIGNAL -->''])) = [Some (str ''COMPLETE''), None, None]"
  by (simp add: feed_def eval_defs)

text \<open>
  C4, amended. An open-marker line without close marker and without the
  legacy literal, then body lines with no open marker, no close marker and
  no legacy literal, then a close-marker line without the legacy literal:
  fed to a new parser, \<open>feed\<close> returns nothing on the open-marker line and
  on each body line, and on the close-marker line the Signal with the type
  and attributes of the open marker and the body lines, joined by line feeds
  and trimmed, as its body; the parser is then as new.
\<close>

theorem C4_multi_line_block:
  assumes "exec SIGNAL_OPEN l0 = Some m"
    and "\<not> test SIGNAL_CLOSE l0" and "\<not> includes_str l0 LEGACY_COMPLETE"
    and "\<forall>b \<in> set bs. exec SIGNAL_OPEN b = None \<and> \<not> test SIGNAL_CLOSE b \<and>
           \<not> includes_str b LEGACY_COMPLETE"
    and "test SIGNAL_CLOSE lc" and "\<not> includes_str lc LEGACY_COMPLETE"
  shows "feed_lines new_SignalParser (l0 # bs @ [lc]) =
     (None # replicate (length bs) None @
        [Some \<lparr>type = capture m 1, attrs = parseAttrs (capture m 2),
               body = trim (join (str ''\<newline>'') bs)\<rparr>],
      new_SignalParser)"
proof -
  let ?pd = "\<lparr>type = capture m 1, attrs = parseAttrs (capture m 2)\<rparr>"
  let ?p1 = "new_SignalParser\<lparr>pending := Some ?pd, bodyLines := []\<rparr>"
  let ?sig = "\<lparr>type = capture m 1, attrs = parseAttrs (capture m 2),
               body = trim (join (str ''\<newline>'') bs)\<rparr>"
  have open_line: "feed new_SignalParser l0 = (None, ?p1)"
    using assms(1-3) by (simp add: feed_open)
  have pend: "pending ?p1 = Some ?pd"
    by simp
  have close_line: "feed (?p1\<lparr>bodyLines := bodyLines ?p1 @ bs\<rparr>) lc = (Some ?sig, new_SignalParser)"
    using assms(5,6) by (simp add: feed_close new_SignalParser_def)
  have rest: "feed_lines ?p1 (bs @ [lc]) = (replicate (length bs) None @ [Some ?sig], new_SignalParser)"
    using close_line unfolding feed_lines_body[OF assms(4) pend] by simp
  from open_line rest show ?thesis
    by simp
qed

theorem C4_witness:
  "feed_lines new_SignalParser
     [str ''<!-- SIGNAL:TASK_COMPLETE task=\"T1\" -->'', str ''Done'', str '' ok '',
      str ''<!-- /SIGNAL -->''] =
   ([None, None, None,
     Some \<lparr>type = str ''TASK_COMPLETE'', attrs = [str ''task'' \<mapsto> str ''T1''],
            body = str ''Done'' @ [10] @ str '' ok''\<rparr>],
    new_SignalParser)"
proof -
  obtain m where m: "exec SIGNAL_OPEN (str ''<!-- SIGNAL:TASK_COMPLETE task=\"T1\" -->'') = Some m"
    and m1: "capture m 1 = str ''TASK_COMPLETE''" and m2: "capture m 2 = str '' task=\"T1\"''"
    using ex_open_TASK by blast
  have o1: "\<not> test SIGNAL_CLOSE (str ''<!-- SIGNAL:TASK_COMPLETE task=\"T1\" -->'')"
    by (simp add: eval_defs)
  have o2: "\<not> includes_str (str ''<!-- SIGNAL:TASK_COMPLETE task=\"T1\" -->'') LEGACY_COMPLETE"
    by (simp add: str_def LEGACY_COMPLETE_def)
  have b: "\<forall>b \<in> set [str ''Done'', str '' ok ''].
      exec SIGNAL_OPEN b = None \<and> \<not> test SIGNAL_CLOSE b \<and> \<not> includes_str b LEGACY_COMPLETE"
    by (simp add: eval_defs)
  have c1: "test SIGNAL_CLOSE (str ''<!-- /SIGNAL -->'')"
    by (simp add: eval_defs)
  have c2: "\<not> includes_str (str ''<!-- /SIGNAL -->'') LEGACY_COMPLETE"
    by (simp add: str_def LEGACY_COMPLETE_def)
  have a: "parseAttrs (str '' task=\"T1\"'') = [str ''task'' \<mapsto> str ''T1'']"
    by (simp add: eval_defs)
  have t: "trim (join (str ''\<newline>'') [str ''Done'', str '' ok '']) = str ''Done'' @ [10] @ str '' ok''"
    by (simp add: eval_defs)
  from C4_multi_line_block[OF m o1 o2 b c1 c2] m1 m2 a t
  show ?thesis by simp
qed

subsection \<open>Self-closing blocks\<close>

lemma search_append:
  "rx_match r (s, Map.empty) \<noteq> [] \<Longrightarrow> search r i (pre @ s) \<noteq> None"
proof (induction pre arbitrary: i)
  case Nil
  then show ?case by (simp add: search.simps split: list.splits)
next
  case (Cons a pre)
  from Cons.IH[OF Cons.prems, of "Suc i"] show ?case
    by (subst search.simps) (simp split: list.splits)
qed

lemma close_literal_matches:
  "rx_match SIGNAL_CLOSE (CLOSE_LITERAL @ post, c) \<noteq> []"
  by (simp add: SIGNAL_CLOSE_def CLOSE_LITERAL_def str_def rx_match.simps(4) is_space_def)

lemma test_close_literal:
  "test SIGNAL_CLOSE (pre @ CLOSE_LITERAL @ post)"
  by (simp add: test_def exec_def search_append close_literal_matches)

lemma indexOf_from_first:
  "p \<noteq> [] \<Longrightarrow> \<not> includes_str (mid @ butlast p) p \<Longrightarrow>
     indexOf_from k (mid @ p @ rest) p = int (k + length mid)"
proof (induction mid arbitrary: k)
  case Nil
  then obtain x xs where "p @ rest = x # xs" by (cases p) auto
  then show ?case by (metis append_Nil indexOf_from.simps(2) prefixI add.right_neutral list.size(3))
next
  case (Cons a mid)
  from Cons.prems have np: "\<not> prefix p (a # mid @ butlast p)"
    and ni: "\<not> includes_str (mid @ butlast p) p" by simp_all
  have "\<not> prefix p (a # mid @ p @ rest)"
  proof
    assume pr: "prefix p (a # mid @ p @ rest)"
    have "a # mid @ p @ rest = (a # mid @ butlast p) @ (last p # rest)"
      using Cons.prems(1) by simp
    then have "prefix (a # mid @ butlast p) (a # mid @ p @ rest)"
      by (metis prefixI)
    moreover have "length p \<le> length (a # mid @ butlast p)" using Cons.prems(1)
      by (cases p) auto
    ultimately have "prefix p (a # mid @ butlast p)"
      using pr by (rule prefix_length_prefix[rotated])
    with np show False ..
  qed
  with Cons.IH[OF Cons.prems(1) ni, of "Suc k"] show ?case by simp
qed

lemma CLOSE_LITERAL_nonempty: "CLOSE_LITERAL \<noteq> []"
  by (simp add: CLOSE_LITERAL_def str_def)

text \<open>
  C3, as stated, fails where the line also contains the legacy literal: the
  text between the open marker and the close marker is
  \<open><promise>COMPLETE</promise>\<close>, and \<open>feed\<close> returns the COMPLETE signal,
  whose body is empty.
\<close>

theorem C3_counterexample:
  "exec SIGNAL_OPEN (str ''<!-- SIGNAL:X --><promise>COMPLETE</promise><!-- /SIGNAL -->'') =
     Some \<lparr>index = 0, matched = str ''<!-- SIGNAL:X -->'',
           groups = [1 \<mapsto> str ''X'', 2 \<mapsto> []]\<rparr> \<and>
   drop (0 + length (str ''<!-- SIGNAL:X -->''))
        (str ''<!-- SIGNAL:X --><promise>COMPLETE</promise><!-- /SIGNAL -->'') =
     str ''<promise>COMPLETE</promise>'' @ CLOSE_LITERAL \<and>
   test SIGNAL_CLOSE (str ''<!-- SIGNAL:X --><promise>COMPLETE</promise><!-- /SIGNAL -->'') \<and>
   trim (str ''<promise>COMPLETE</promise>'') = str ''<promise>COMPLETE</promise>'' \<and>
   feed new_SignalParser (str ''<!-- SIGNAL:X --><promise>COMPLETE</promise><!-- /SIGNAL -->'') =
     (Some \<lparr>type = str ''COMPLETE'', attrs = Map.empty, body = []\<rparr>, new_SignalParser)"
  by (simp add: feed_def eval_defs)

text \<open>
  C3, amended. No block is pending; the line does not contain the legacy
  literal and matches the open-marker pattern; after the match comes
  \<open>mid\<close>, then the close marker \<open><!-- /SIGNAL -->\<close> in exactly this spelling,
  which does not begin anywhere inside \<open>mid\<close>. Then \<open>feed\<close> returns the
  Signal of the open marker with \<open>mid\<close>, trimmed, as its body, and the
  parser is unchanged.
\<close>

theorem C3_self_closing:
  assumes "pending p = None"
    and "\<not> includes_str line LEGACY_COMPLETE"
    and "exec SIGNAL_OPEN line = Some m"
    and "drop (index m + length (matched m)) line = mid @ CLOSE_LITERAL @ rest"
    and "\<not> includes_str (mid @ butlast CLOSE_LITERAL) CLOSE_LITERAL"
  shows "feed p line =
     (Some \<lparr>type = capture m 1, attrs = parseAttrs (capture m 2), body = trim mid\<rparr>, p)"
proof -
  let ?k = "index m + length (matched m)"
  have "line = take ?k line @ drop ?k line" by simp
  with assms(4) have "line = take ?k line @ mid @ CLOSE_LITERAL @ rest" by simp
  then have "line = (take ?k line @ mid) @ CLOSE_LITERAL @ rest" by simp
  then have close: "test SIGNAL_CLOSE line"
    using test_close_literal[of "take ?k line @ mid" rest] by simp
  have idx: "indexOf (drop ?k line) CLOSE_LITERAL = int (length mid)"
    unfolding assms(4) indexOf_def
    using indexOf_from_first[OF CLOSE_LITERAL_nonempty assms(5), of 0 rest] by simp
  show ?thesis
    unfolding feed_self_closing[OF assms(2) assms(1) close assms(3)] idx
    by (simp add: assms(4))
qed

theorem C3_witness:
  "feed new_SignalParser (str ''a<!-- SIGNAL:T k=\"v\" -->  body <!-- /SIGNAL --> z'') =
     (Some \<lparr>type = str ''T'', attrs = [str ''k'' \<mapsto> str ''v''], body = str ''body''\<rparr>,
      new_SignalParser)"
proof -
  obtain m where m: "exec SIGNAL_OPEN (str ''a<!-- SIGNAL:T k=\"v\" -->  body <!-- /SIGNAL --> z'') = Some m"
    and m0: "index m = 1" "length (matched m) = 23"
    and m1: "capture m 1 = str ''T''" and m2: "capture m 2 = str '' k=\"v\"''"
    by (simp add: eval_defs)
  have p: "pending new_SignalParser = None"
    by (simp add: new_SignalParser_def)
  have l: "\<not> includes_str (str ''a<!-- SIGNAL:T k=\"v\" -->  body <!-- /SIGNAL --> z'') LEGACY_COMPLETE"
    by (simp add: str_def LEGACY_COMPLETE_def)
  have d: "drop (index m + length (matched m)) (str ''a<!-- SIGNAL:T k=\"v\" -->  body <!-- /SIGNAL --> z'') =
      str ''  body '' @ CLOSE_LITERAL @ str '' z''"
    by (simp add: m0 str_def CLOSE_LITERAL_def)
  have f: "\<not> includes_str (str ''  body '' @ butlast CLOSE_LITERAL) CLOSE_LITERAL"
    by (simp add: str_def CLOSE_LITERAL_def)
  have a: "parseAttrs (str '' k=\"v\"'') = [str ''k'' \<mapsto> str ''v'']"
    by (simp add: eval_defs)
  have t: "trim (str ''  body '') = str ''body''"
    by (simp add: eval_defs)
  from C3_self_closing[OF p l m d f] m1 m2 a t
  show ?thesis by simp
qed

text \<open>
  A close marker in another spelling that \<open>SIGNAL_CLOSE\<close> accepts makes the
  line self-closing too, but \<open>indexOf\<close> looks for the one spelling
  \<open><!-- /SIGNAL -->\<close>, and the body comes out empty.
\<close>

lemma self_closing_other_spelling:
  "test SIGNAL_CLOSE (str ''<!-- SIGNAL:X -->body<!--/SIGNAL-->'') \<and>
   feed new_SignalParser (str ''<!-- SIGNAL:X -->body<!--/SIGNAL-->'') =
     (Some \<lparr>type = str ''X'', attrs = Map.empty, body = []\<rparr>, new_SignalParser)"
  by (simp add: feed_def eval_defs)


section \<open>Properties of the process runner\<close>

subsection \<open>Lines do not depend on the chunks\<close>

lemma split_nl_nonempty: "split_nl s \<noteq> []"
  by (induction s) (auto split: list.splits)

lemma split_nl_no_newline: "10 \<notin> set s \<Longrightarrow> split_nl s = [s]"
  by (induction s) auto

lemma last_split_nl_no_newline: "10 \<notin> set (last (split_nl s))"
  by (induction s) (auto split: list.splits simp: split_nl_nonempty)

lemma split_nl_append:
  "split_nl (a @ b) = butlast (split_nl a) @ split_nl (last (split_nl a) @ b)"
proof (induction a)
  case Nil
  then show ?case by simp
next
  case (Cons c a)
  show ?case
  proof (cases "c = 10")
    case True
    with Cons show ?thesis by (simp add: split_nl_nonempty)
  next
    case False
    obtain l ls where s: "split_nl a = l # ls"
      using split_nl_nonempty[of a] by (cases "split_nl a") auto
    show ?thesis
    proof (cases ls)
      case Nil
      with s Cons False show ?thesis by (auto split: list.splits)
    next
      case (Cons l' ls')
      with s Cons.IH False show ?thesis by (auto split: list.splits)
    qed
  qed
qed

lemma read_loop_append:
  "read_loop dec opts b (cs1 @ cs2) x = read_loop dec opts b cs2 (read_loop dec opts b cs1 x)"
proof (induction cs1 arbitrary: x)
  case Nil
  then show ?case by (cases x) simp
next
  case (Cons c cs1)
  obtain d buf st where x: "x = (d, buf, st)" by (cases x)
  show ?case unfolding x by (simp add: Cons.IH Let_def split: prod.splits)
qed

lemma read_loop_single:
  "read_loop dec opts b [c] (d, buf, st) =
     (snd (dec d c), last (split_nl (buf @ fst (dec d c))),
      fold (each_line opts b) (butlast (split_nl (buf @ fst (dec d c)))) st)"
  by (simp add: split_nl_nonempty Let_def split: prod.splits)

lemma read_loop_merge:
  assumes "streaming dec"
  shows "read_loop dec opts b [c1, c2] x = read_loop dec opts b [c1 @ c2] x"
proof -
  obtain d buf st where x: "x = (d, buf, st)" by (cases x)
  obtain s1 d1 where 1: "dec d c1 = (s1, d1)" by (cases "dec d c1")
  obtain s2 d2 where 2: "dec d1 c2 = (s2, d2)" by (cases "dec d1 c2")
  from assms 1 2 have 12: "dec d (c1 @ c2) = (s1 @ s2, d2)"
    by (simp add: streaming_def)
  have sp: "split_nl (buf @ s1 @ s2) =
      butlast (split_nl (buf @ s1)) @ split_nl (last (split_nl (buf @ s1)) @ s2)"
    using split_nl_append[of "buf @ s1" s2] by simp
  have "read_loop dec opts b [c1, c2] x =
      read_loop dec opts b [c2] (read_loop dec opts b [c1] x)"
    using read_loop_append[of dec opts b "[c1]" "[c2]" x] by simp
  also have "\<dots> = read_loop dec opts b [c1 @ c2] x"
    unfolding x read_loop_single
    by (simp add: 1 2 12 sp split_nl_nonempty butlast_append)
  finally show ?thesis .
qed

lemma read_loop_empty_chunk:
  assumes "streaming dec" and "10 \<notin> set buf"
  shows "read_loop dec opts b [[]] (d, buf, st) = (d, buf, st)"
  using assms by (simp add: streaming_def split_nl_no_newline Let_def)

lemma read_loop_buffer_no_newline:
  "10 \<notin> set buf \<Longrightarrow> read_loop dec opts b cs (d, buf, st) = (d', buf', st') \<Longrightarrow> 10 \<notin> set buf'"
proof (induction cs arbitrary: d buf st)
  case Nil
  then show ?case by simp
next
  case (Cons c cs)
  obtain s1 d1 where 1: "dec d c = (s1, d1)" by (cases "dec d c")
  have "10 \<notin> set (last (split_nl (buf @ s1)))" by (rule last_split_nl_no_newline)
  from Cons.IH[OF this] Cons.prems(2) 1 show ?case
    by (simp add: split_nl_nonempty Let_def)
qed

lemma read_loop_concat:
  assumes "streaming dec" and "10 \<notin> set buf"
  shows "read_loop dec opts b cs (d, buf, st) = read_loop dec opts b [concat cs] (d, buf, st)"
  using assms(2)
proof (induction cs arbitrary: d buf st)
  case Nil
  with assms(1) show ?case using read_loop_empty_chunk[of dec buf opts b d st] by simp
next
  case (Cons c cs)
  obtain d1 buf1 st1 where 1: "read_loop dec opts b [c] (d, buf, st) = (d1, buf1, st1)"
    by (cases "read_loop dec opts b [c] (d, buf, st)")
  from read_loop_buffer_no_newline[OF Cons.prems 1] have nb: "10 \<notin> set buf1" .
  have "read_loop dec opts b (c # cs) (d, buf, st) = read_loop dec opts b cs (d1, buf1, st1)"
    using read_loop_append[of dec opts b "[c]" cs "(d, buf, st)"] 1 by simp
  also have "\<dots> = read_loop dec opts b [concat cs] (d1, buf1, st1)"
    by (rule Cons.IH[OF nb])
  also have "\<dots> = read_loop dec opts b [c, concat cs] (d, buf, st)"
    using read_loop_append[of dec opts b "[c]" "[concat cs]" "(d, buf, st)"] 1 by simp
  also have "\<dots> = read_loop dec opts b [c @ concat cs] (d, buf, st)"
    by (rule read_loop_merge[OF assms(1)])
  finally show ?case by simp
qed

lemma readStream_concat:
  assumes "streaming dec"
  shows "readStream dec d0 opts (Some cs) b st = readStream dec d0 opts (Some [concat cs]) b st"
  unfolding readStream_def using read_loop_concat[OF assms, of "[]" opts b cs d0 st] by simp

lemma streaming_bytewise: "streaming bytewise"
  by (simp add: streaming_def bytewise_def)

text \<open>
  C7. With a streaming decoder, two ways of cutting the same bytes of
  standard output into chunks give the same state after \<open>readStream\<close>: the
  same lines processed (\<open>outputLines\<close>), the same signals in the same order,
  the same callback effects and the same parser; in particular one byte per
  chunk gives what a single chunk gives, and \<open>spawnAgent\<close> returns the same
  result.
\<close>

theorem C7_chunking_independent:
  assumes "streaming dec" and "concat chunks1 = concat chunks2"
  shows "readStream dec d0 opts (Some chunks1) True st =
           readStream dec d0 opts (Some chunks2) True st \<and>
         readStream dec d0 opts (Some (map (\<lambda>b. [b]) bytes)) True st =
           readStream dec d0 opts (Some [bytes]) True st \<and>
         spawnAgent dec d0 opts chunks1 err_chunks code =
           spawnAgent dec d0 opts chunks2 err_chunks code"
proof -
  have 1: "readStream dec d0 opts (Some chunks1) True st =
           readStream dec d0 opts (Some chunks2) True st" for st
    using readStream_concat[OF assms(1), of d0 opts chunks1 True st]
      readStream_concat[OF assms(1), of d0 opts chunks2 True st] assms(2) by simp
  have 2: "concat (map (\<lambda>b. [b]) bytes) = bytes" by (induction bytes) auto
  have 3: "readStream dec d0 opts (Some (map (\<lambda>b. [b]) bytes)) True st =
           readStream dec d0 opts (Some [bytes]) True st"
    using readStream_concat[OF assms(1), of d0 opts "map (\<lambda>b. [b]) bytes" True st] 2 by simp
  show ?thesis
    by (simp add: 1 3 spawnAgent_def run_streams_def)
qed

lemmas run_defs = readStream_def Let_def each_line_def stdout_line_def call_opt_def
  init_run_def bytewise_def feed_def

theorem C7_witness:
  "streaming bytewise \<and>
   concat [str ''<!-- SIGNAL:T -->'' @ [10] @ str ''Done'' @ [10] @ str ''<!-- /SIGNAL -->''] =
   concat [str ''<!-- SIG'', str ''NAL:T -->'' @ [10] @ str ''Do'',
           str ''ne'' @ [10] @ str ''<!-- /SIGNAL -->''] \<and>
   readStream bytewise () \<lparr>onSignal = None, onOutput = None\<rparr>
     (Some [str ''<!-- SIG'', str ''NAL:T -->'' @ [10] @ str ''Do'',
            str ''ne'' @ [10] @ str ''<!-- /SIGNAL -->'']) True (init_run :: unit run_state) =
   \<lparr>parser = new_SignalParser,
    signals = [\<lparr>type = str ''T'', attrs = Map.empty, body = str ''Done''\<rparr>],
    outputLines = [str ''<!-- SIGNAL:T -->'', str ''Done'', str ''<!-- /SIGNAL -->''],
    effects = [], stderr_written = []\<rparr>"
proof -
  have c: "concat [str ''<!-- SIGNAL:T -->'' @ [10] @ str ''Done'' @ [10] @ str ''<!-- /SIGNAL -->''] =
   concat [str ''<!-- SIG'', str ''NAL:T -->'' @ [10] @ str ''Do'',
           str ''ne'' @ [10] @ str ''<!-- /SIGNAL -->'']"
    by (simp add: str_def)
  have e: "readStream bytewise () \<lparr>onSignal = None, onOutput = None\<rparr>
     (Some [str ''<!-- SIGNAL:T -->'' @ [10] @ str ''Done'' @ [10] @ str ''<!-- /SIGNAL -->''])
     True (init_run :: unit run_state) =
   \<lparr>parser = new_SignalParser,
    signals = [\<lparr>type = str ''T'', attrs = Map.empty, body = str ''Done''\<rparr>],
    outputLines = [str ''<!-- SIGNAL:T -->'', str ''Done'', str ''<!-- /SIGNAL -->''],
    effects = [], stderr_written = []\<rparr>"
    by (simp add: run_defs eval_defs)
  from C7_chunking_independent[OF streaming_bytewise c,
      of "()" "\<lparr>onSignal = None, onOutput = None\<rparr>" "init_run :: unit run_state"]
    streaming_bytewise c e
  show ?thesis by simp
qed

subsection \<open>Standard error\<close>

text \<open>
  \<open>readStream\<close> on standard error writes each complete line and a line feed
  to \<open>process.stderr\<close>, and touches neither the parser, nor the signals, nor
  the output lines, nor the callbacks.
\<close>

lemma fold_each_line_stderr:
  "fold (each_line opts False) ls st =
     st\<lparr>stderr_written := stderr_written st @ map (\<lambda>l. l @ str ''\<newline>'') ls\<rparr>"
  by (induction ls arbitrary: st) (simp_all add: each_line_def)

lemma read_loop_stderr_frame:
  "read_loop dec opts False cs (d, buf, st) = (d', buf', st') \<Longrightarrow>
     parser st' = parser st \<and> signals st' = signals st \<and>
     outputLines st' = outputLines st \<and> effects st' = effects st"
proof (induction cs arbitrary: d buf st)
  case Nil
  then show ?case by simp
next
  case (Cons c cs)
  obtain s1 d1 where 1: "dec d c = (s1, d1)" by (cases "dec d c")
  from Cons.prems 1 have
    "read_loop dec opts False cs
       (d1, last (split_nl (buf @ s1)),
        fold (each_line opts False) (butlast (split_nl (buf @ s1))) st) = (d', buf', st')"
    by (simp add: Let_def split_nl_nonempty)
  from Cons.IH[OF this] show ?case by (simp add: fold_each_line_stderr)
qed

lemma readStream_stderr_frame:
  "parser (readStream dec d0 opts stream False st) = parser st \<and>
   signals (readStream dec d0 opts stream False st) = signals st \<and>
   outputLines (readStream dec d0 opts stream False st) = outputLines st \<and>
   effects (readStream dec d0 opts stream False st) = effects st"
proof (cases stream)
  case None
  then show ?thesis by (simp add: readStream_def)
next
  case (Some cs)
  obtain d' buf' st' where r: "read_loop dec opts False cs (d0, [], st) = (d', buf', st')"
    by (cases "read_loop dec opts False cs (d0, [], st)")
  from read_loop_stderr_frame[OF r] Some r show ?thesis by (simp add: readStream_def)
qed

text \<open>
  C8. The code at the input \<open>warn\<close>, line feed, \<open>fatal\<close> on standard error:
  \<open>warn\<close> is forwarded; the last line \<open>fatal\<close>, which no line feed ends, is
  not, since the remaining buffer is handled for standard output only
  (\<open>buffer.length > 0 && isStdout\<close>).
\<close>

theorem C8_partial_stderr_line_dropped:
  "readStream bytewise () opts (Some [str ''warn'' @ [10] @ str ''fatal'']) False st =
     st\<lparr>stderr_written := stderr_written st @ [str ''warn'' @ [10]]\<rparr>"
  by (simp add: readStream_def Let_def each_line_def bytewise_def str_def)

subsection \<open>The two streams\<close>

text \<open>
  Reading standard output never looks at what was written to
  \<open>process.stderr\<close>, and reading standard error only appends to it. So an
  iteration of one loop and an iteration of the other give the same state in
  either order, and so do the two \<open>readStream\<close> calls as wholes.
\<close>

lemma stdout_line_stderr_written:
  "stdout_line opts l (st\<lparr>stderr_written := w\<rparr>) = (stdout_line opts l st)\<lparr>stderr_written := w\<rparr>"
  by (simp add: stdout_line_def Let_def split: prod.splits option.splits)

lemma fold_stdout_stderr_written:
  "fold (each_line opts True) ls (st\<lparr>stderr_written := w\<rparr>) =
     (fold (each_line opts True) ls st)\<lparr>stderr_written := w\<rparr>"
  by (induction ls arbitrary: st) (simp_all add: each_line_def stdout_line_stderr_written)

lemma read_loop_stdout_stderr_written:
  "read_loop dec opts True cs (d, buf, st\<lparr>stderr_written := w\<rparr>) =
     (case read_loop dec opts True cs (d, buf, st) of
        (d', buf', st') \<Rightarrow> (d', buf', st'\<lparr>stderr_written := w\<rparr>))"
proof (induction cs arbitrary: d buf st)
  case Nil
  then show ?case by simp
next
  case (Cons c cs)
  obtain s1 d1 where 1: "dec d c = (s1, d1)" by (cases "dec d c")
  show ?case
    by (simp add: 1 Let_def fold_stdout_stderr_written Cons.IH)
qed

lemma read_loop_stderr_appends:
  "\<exists>d' buf' w. \<forall>st. read_loop dec opts False cs (d, buf, st) =
      (d', buf', st\<lparr>stderr_written := stderr_written st @ w\<rparr>)"
proof (induction cs arbitrary: d buf)
  case Nil
  show ?case by (intro exI[of _ d] exI[of _ buf] exI[of _ "[]"]) simp
next
  case (Cons c cs)
  obtain s1 d1 where 1: "dec d c = (s1, d1)" by (cases "dec d c")
  let ?w1 = "map (\<lambda>l. l @ str ''\<newline>'') (butlast (split_nl (buf @ s1)))"
  from Cons.IH[of d1 "last (split_nl (buf @ s1))"] obtain d' buf' w where
    r: "\<And>st. read_loop dec opts False cs (d1, last (split_nl (buf @ s1)), st) =
      (d', buf', st\<lparr>stderr_written := stderr_written st @ w\<rparr>)" by blast
  have "\<forall>st. read_loop dec opts False (c # cs) (d, buf, st) =
      (d', buf', st\<lparr>stderr_written := stderr_written st @ (?w1 @ w)\<rparr>)"
    by (simp add: 1 Let_def split_nl_nonempty fold_each_line_stderr r)
  then show ?case by blast
qed

lemma stdout_line_keeps_stderr:
  "stderr_written (stdout_line opts l st) = stderr_written st"
  by (simp add: stdout_line_def Let_def split: prod.splits option.splits)

lemma fold_stdout_keeps_stderr:
  "stderr_written (fold (each_line opts True) ls st) = stderr_written st"
  by (induction ls arbitrary: st) (simp_all add: each_line_def stdout_line_keeps_stderr)

lemma read_loop_stdout_keeps_stderr:
  "read_loop dec opts True cs (d, buf, st) = (d', buf', st') \<Longrightarrow>
     stderr_written st' = stderr_written st"
proof (induction cs arbitrary: d buf st)
  case Nil
  then show ?case by simp
next
  case (Cons c cs)
  obtain s1 d1 where 1: "dec d c = (s1, d1)" by (cases "dec d c")
  from Cons.prems 1 have
    "read_loop dec opts True cs
       (d1, last (split_nl (buf @ s1)),
        fold (each_line opts True) (butlast (split_nl (buf @ s1))) st) = (d', buf', st')"
    by (simp add: Let_def split_nl_nonempty)
  from Cons.IH[OF this] show ?case by (simp add: fold_stdout_keeps_stderr)
qed

lemma run_streams_either_order:
  "readStream dec d0 opts (Some err_chunks) False
     (readStream dec d0 opts (Some out_chunks) True st) =
   readStream dec d0 opts (Some out_chunks) True
     (readStream dec d0 opts (Some err_chunks) False st)"
proof -
  obtain d' buf' w where
    e: "\<And>st. read_loop dec opts False err_chunks (d0, [], st) =
      (d', buf', st\<lparr>stderr_written := stderr_written st @ w\<rparr>)"
    using read_loop_stderr_appends[of dec opts err_chunks d0 "[]"] by blast
  have err: "readStream dec d0 opts (Some err_chunks) False st =
      st\<lparr>stderr_written := stderr_written st @ w\<rparr>" for st
    by (simp add: readStream_def e)
  obtain d1 buf1 st1 where
    o: "read_loop dec opts True out_chunks (d0, [], st) = (d1, buf1, st1)"
    by (cases "read_loop dec opts True out_chunks (d0, [], st)")
  show ?thesis
    unfolding err
    by (simp add: readStream_def read_loop_stdout_stderr_written o stdout_line_stderr_written
          stdout_line_keeps_stderr read_loop_stdout_keeps_stderr[OF o])
qed


section \<open>Properties of the monitor\<close>

lemma readStream_stdout_single:
  "readStream dec d0 opts (Some [c]) True st =
     fold (stdout_line opts) (stream_lines (fst (dec d0 c))) st"
proof -
  have e: "each_line opts True = stdout_line opts"
    by (rule ext)+ (simp add: each_line_def)
  show ?thesis
    by (cases "dec d0 c")
       (simp add: readStream_def Let_def split_nl_nonempty stream_lines_def e)
qed

lemma readStream_stdout_lines:
  assumes "streaming dec"
  shows "readStream dec d0 opts (Some cs) True st =
     fold (stdout_line opts) (stream_lines (fst (dec d0 (concat cs)))) st"
  unfolding readStream_concat[OF assms, of d0 opts cs True st]
  by (rule readStream_stdout_single)

lemma feed_lines_snd_append:
  "snd (feed_lines p (ls @ ls')) = snd (feed_lines (snd (feed_lines p ls)) ls')"
  by (induction ls arbitrary: p) (simp_all add: split_beta)

lemma monitor_onSignal_caller_events:
  "filter caller_event (call_opt (onSignal (monitor_options opts)) s) =
     (case onAnySignal opts of None \<Rightarrow> [] | Some h \<Rightarrow> [Invoke h s]) @
     (case handlers opts of
        None \<Rightarrow> []
      | Some hs \<Rightarrow> (case hs (type s) of None \<Rightarrow> [] | Some h \<Rightarrow> [Invoke h s]))"
  by (simp add: monitor_options_def call_opt_def get_property_def Let_def
           split: option.splits)

lemma monitor_onOutput_events:
  "call_opt (onOutput (monitor_options opts)) l =
     (if passthrough opts = Some False then [] else [StdoutWrite (l @ str ''\<newline>'')])"
  by (simp add: monitor_options_def call_opt_def Let_def split: option.splits)

lemma stdout_line_monitor:
  "parser (stdout_line (monitor_options opts) l st) = snd (feed (parser st) l) \<and>
   outputLines (stdout_line (monitor_options opts) l st) = outputLines st @ [l] \<and>
   signals (stdout_line (monitor_options opts) l st) = signals st @ completed_signals (parser st) [l] \<and>
   filter caller_event (effects (stdout_line (monitor_options opts) l st)) =
     filter caller_event (effects st) @ spec_monitor_trace opts (parser st) [l]"
  by (cases "feed (parser st) l")
     (auto simp: stdout_line_def Let_def monitor_onSignal_caller_events
                 monitor_onOutput_events completed_signals_def
           split: option.splits)

lemma spec_monitor_trace_Cons:
  "spec_monitor_trace opts p (l # ls) =
     spec_monitor_trace opts p [l] @ spec_monitor_trace opts (snd (feed p l)) ls"
  by (simp add: split_beta)

lemma completed_signals_Cons:
  "completed_signals p (l # ls) =
     completed_signals p [l] @ completed_signals (snd (feed p l)) ls"
  by (simp add: completed_signals_def split_beta List.map_filter_simps split: option.splits)

lemma fold_stdout_line_monitor:
  "parser (fold (stdout_line (monitor_options opts)) ls st) = snd (feed_lines (parser st) ls) \<and>
   outputLines (fold (stdout_line (monitor_options opts)) ls st) = outputLines st @ ls \<and>
   signals (fold (stdout_line (monitor_options opts)) ls st) =
     signals st @ completed_signals (parser st) ls \<and>
   filter caller_event (effects (fold (stdout_line (monitor_options opts)) ls st)) =
     filter caller_event (effects st) @ spec_monitor_trace opts (parser st) ls"
proof (induction ls arbitrary: st)
  case Nil
  show ?case by (simp add: completed_signals_def)
next
  case (Cons l ls)
  note 1 = stdout_line_monitor[of opts l st]
  note 2 = Cons.IH[of "stdout_line (monitor_options opts) l st"]
  show ?case
    unfolding spec_monitor_trace_Cons[of opts "parser st" l ls]
      completed_signals_Cons[of "parser st" l ls]
    using 1 2 by (simp add: split_beta)
qed

text \<open>
  C9. With a streaming decoder, take the lines of the standard output of the
  child, from its whole decoded text. The echoes and the calls of the
  caller's handlers during a \<open>monitorAgent\<close> run are, in this order, those the
  specification describes for these lines: each line is echoed (unless
  \<open>passthrough\<close> is \<open>false\<close>, so also when it is omitted), and for each
  signal that a line completes the catch-all handler, when supplied, is
  invoked and then the handler registered for the signal's type. The run
  returns these lines, joined, and these signals.
\<close>

theorem C9_monitor_dispatch:
  assumes "streaming dec"
  shows "filter caller_event (monitorAgent_effects dec d0 opts out_chunks err_chunks) =
           spec_monitor_trace opts new_SignalParser
             (stream_lines (fst (dec d0 (concat out_chunks)))) \<and>
         stdout (monitorAgent dec d0 opts out_chunks err_chunks code) =
           join (str ''\<newline>'') (stream_lines (fst (dec d0 (concat out_chunks)))) \<and>
         result_signals (monitorAgent dec d0 opts out_chunks err_chunks code) =
           completed_signals new_SignalParser (stream_lines (fst (dec d0 (concat out_chunks))))"
proof -
  let ?ls = "stream_lines (fst (dec d0 (concat out_chunks)))"
  let ?st = "readStream dec d0 (monitor_options opts) (Some out_chunks) True
               (init_run :: 'c event run_state)"
  have out: "?st = fold (stdout_line (monitor_options opts)) ?ls init_run"
    by (rule readStream_stdout_lines[OF assms])
  note f = fold_stdout_line_monitor[of opts ?ls "init_run :: 'c event run_state"]
  note e = readStream_stderr_frame[of dec d0 "monitor_options opts" "Some err_chunks" ?st]
  from f e show ?thesis
    unfolding monitorAgent_effects_def monitorAgent_def spawnAgent_def run_streams_def out
    by (simp add: init_run_def Let_def)
qed

theorem C9_witness:
  "streaming bytewise \<and>
   filter caller_event
     (monitorAgent_effects bytewise ()
        \<lparr>passthrough = None, handlers = Some [str ''T'' \<mapsto> ''onT''], onAnySignal = Some ''any''\<rparr>
        [str ''<!-- SIGNAL:T -->ok<!-- /SIG'', str ''NAL -->'' @ [10] @ str ''bye'']
        [str ''e'' @ [10]]) =
     [StdoutWrite (str ''<!-- SIGNAL:T -->ok<!-- /SIGNAL -->'' @ [10]),
      Invoke ''any'' \<lparr>type = str ''T'', attrs = Map.empty, body = str ''ok''\<rparr>,
      Invoke ''onT'' \<lparr>type = str ''T'', attrs = Map.empty, body = str ''ok''\<rparr>,
      StdoutWrite (str ''bye'' @ [10])] \<and>
   stdout (monitorAgent bytewise ()
        \<lparr>passthrough = None, handlers = Some [str ''T'' \<mapsto> ''onT''], onAnySignal = Some ''any''\<rparr>
        [str ''<!-- SIGNAL:T -->ok<!-- /SIG'', str ''NAL -->'' @ [10] @ str ''bye'']
        [str ''e'' @ [10]] 0) =
     str ''<!-- SIGNAL:T -->ok<!-- /SIGNAL -->'' @ [10] @ str ''bye'' \<and>
   result_signals (monitorAgent bytewise ()
        \<lparr>passthrough = None, handlers = Some [str ''T'' \<mapsto> ''onT''], onAnySignal = Some ''any''\<rparr>
        [str ''<!-- SIGNAL:T -->ok<!-- /SIG'', str ''NAL -->'' @ [10] @ str ''bye'']
        [str ''e'' @ [10]] 0) =
     [\<lparr>type = str ''T'', attrs = Map.empty, body = str ''ok''\<rparr>]"
proof -
  have l: "stream_lines (fst (bytewise ()
      (concat [str ''<!-- SIGNAL:T -->ok<!-- /SIG'', str ''NAL -->'' @ [10] @ str ''bye'']))) =
      [str ''<!-- SIGNAL:T -->ok<!-- /SIGNAL -->'', str ''bye'']"
    by (simp add: stream_lines_def bytewise_def str_def)
  have t: "spec_monitor_trace
      \<lparr>passthrough = None, handlers = Some [str ''T'' \<mapsto> ''onT''], onAnySignal = Some ''any''\<rparr>
      new_SignalParser [str ''<!-- SIGNAL:T -->ok<!-- /SIGNAL -->'', str ''bye''] =
     [StdoutWrite (str ''<!-- SIGNAL:T -->ok<!-- /SIGNAL -->'' @ [10]),
      Invoke ''any'' \<lparr>type = str ''T'', attrs = Map.empty, body = str ''ok''\<rparr>,
      Invoke ''onT'' \<lparr>type = str ''T'', attrs = Map.empty, body = str ''ok''\<rparr>,
      StdoutWrite (str ''bye'' @ [10])]"
    by (simp add: feed_def eval_defs)
  have c: "completed_signals new_SignalParser
      [str ''<!-- SIGNAL:T -->ok<!-- /SIGNAL -->'', str ''bye''] =
     [\<lparr>type = str ''T'', attrs = Map.empty, body = str ''ok''\<rparr>]"
    by (simp add: completed_signals_def List.map_filter_simps feed_def eval_defs)
  have j: "join (str ''\<newline>'') [str ''<!-- SIGNAL:T -->ok<!-- /SIGNAL -->'', str ''bye''] =
      str ''<!-- SIGNAL:T -->ok<!-- /SIGNAL -->'' @ [10] @ str ''bye''"
    by (simp add: str_def)
  from C9_monitor_dispatch[OF streaming_bytewise, of "()"
      "\<lparr>passthrough = None, handlers = Some [str ''T'' \<mapsto> ''onT''], onAnySignal = Some ''any''\<rparr>"
      "[str ''<!-- SIGNAL:T -->ok<!-- /SIG'', str ''NAL -->'' @ [10] @ str ''bye'']"
      "[str ''e'' @ [10]]" 0]
  show ?thesis
    unfolding l t c j using streaming_bytewise by simp
qed

text \<open>
  A signal whose type names a property of \<open>Object.prototype\<close> reaches that
  property when no handler is registered for it.
\<close>

lemma monitor_inherited_properties:
  "monitorAgent_effects bytewise ()
     \<lparr>passthrough = Some False, handlers = None, onAnySignal = Some ''any''\<rparr>
     [str ''<!-- SIGNAL:toString --><!-- /SIGNAL -->'' @ [10] @
      str ''<!-- SIGNAL:__proto__ --><!-- /SIGNAL -->'' @ [10]] [] =
   [Invoke ''any'' \<lparr>type = str ''toString'', attrs = Map.empty, body = []\<rparr>,
    InvokeInherited (str ''toString'') \<lparr>type = str ''toString'', attrs = Map.empty, body = []\<rparr>,
    Invoke ''any'' \<lparr>type = str ''__proto__'', attrs = Map.empty, body = []\<rparr>,
    CallNonFunction \<lparr>type = str ''__proto__'', attrs = Map.empty, body = []\<rparr>]"
  by (simp add: monitorAgent_effects_def run_streams_def monitor_options_def get_property_def
        Object_prototype_functions_def run_defs eval_defs)

end
